theory Spec2Isabelle
  imports Main
begin

section \<open>Python values and exceptions\<close>

text \<open>
  The client in \<^verbatim>\<open>src/target_sherpaan/client.py\<close> works on the untyped tree that
  \<^verbatim>\<open>xmltodict.parse\<close> returns: \<^verbatim>\<open>None\<close> for an empty element, a string for
  text, a list for repeated children and a dict for an element with children or
  attributes. A dict is an association list in insertion order; a well-formed dict has
  distinct keys, and a lookup reads the first entry of a key.

  Strings are byte strings (UTF-8). Every literal the code compares with is ASCII, so
  equality, prefix, suffix and substring tests agree with Python's tests on code points.
\<close>

datatype pyval =
    PNone
  | PStr string
  | PList "pyval list"
  | PDict "(string \<times> pyval) list"

text \<open>
  The exceptions of class \<^verbatim>\<open>Exception\<close> that the modelled code can meet.
  \<open>ExpatError\<close> is what the XML parser raises on malformed text, \<open>TransportError\<close>
  stands for whatever \<^verbatim>\<open>Session.post\<close> raises (connection error, timeout),
  \<open>HTTPError\<close> carries the status code of the response that
  \<^verbatim>\<open>raise_for_status\<close> rejected, and \<open>RetryError\<close> is tenacity's wrapper around
  the exception of the last attempt.
\<close>

datatype exn =
    TypeError
  | KeyError
  | AttributeError
  | ExpatError
  | TransportError string
  | HTTPError int
  | RetryError exn

subsection \<open>String tests\<close>

fun startswith :: "string \<Rightarrow> string \<Rightarrow> bool" where
  "startswith s [] = True"
| "startswith [] (p # ps) = False"
| "startswith (c # cs) (p # ps) = (c = p \<and> startswith cs ps)"

definition endswith :: "string \<Rightarrow> string \<Rightarrow> bool" where
  "endswith s suf = startswith (rev s) (rev suf)"

text \<open>\<open>contains s sub\<close> is Python's \<^verbatim>\<open>sub in s\<close> on strings.\<close>

fun contains :: "string \<Rightarrow> string \<Rightarrow> bool" where
  "contains [] sub = (sub = [])"
| "contains (c # cs) sub = (startswith (c # cs) sub \<or> contains cs sub)"

subsection \<open>Operations on values\<close>

text \<open>Truth value of an object: \<^verbatim>\<open>None\<close> and empty containers are false.\<close>

fun truthy :: "pyval \<Rightarrow> bool" where
  "truthy PNone = False"
| "truthy (PStr s) = (s \<noteq> [])"
| "truthy (PList xs) = (xs \<noteq> [])"
| "truthy (PDict kvs) = (kvs \<noteq> [])"

fun is_dict :: "pyval \<Rightarrow> bool" where
  "is_dict (PDict kvs) = True"
| "is_dict v = False"

text \<open>
  \<^verbatim>\<open>key in x\<close> for a string key: membership among the keys of a dict, a substring
  test on a string, an equality test against the elements of a list, and a
  \<^verbatim>\<open>TypeError\<close> on \<^verbatim>\<open>None\<close>.
\<close>

fun py_in :: "string \<Rightarrow> pyval \<Rightarrow> exn + bool" where
  "py_in k PNone = Inl TypeError"
| "py_in k (PStr s) = Inr (contains s k)"
| "py_in k (PList xs) = Inr (List.member xs (PStr k))"
| "py_in k (PDict kvs) = Inr (map_of kvs k \<noteq> None)"

text \<open>
  \<^verbatim>\<open>x[key]\<close> for a string key: a dict lookup (\<^verbatim>\<open>KeyError\<close> on a missing key);
  strings, lists and \<^verbatim>\<open>None\<close> do not take a string index.
\<close>

fun py_getitem :: "pyval \<Rightarrow> string \<Rightarrow> exn + pyval" where
  "py_getitem (PDict kvs) k = (case map_of kvs k of None \<Rightarrow> Inl KeyError | Some v \<Rightarrow> Inr v)"
| "py_getitem v k = Inl TypeError"

text \<open>\<^verbatim>\<open>x.items()\<close> and \<^verbatim>\<open>x.keys()\<close> exist on dicts only.\<close>

fun py_items :: "pyval \<Rightarrow> exn + (string \<times> pyval) list" where
  "py_items (PDict kvs) = Inr kvs"
| "py_items v = Inl AttributeError"

fun py_keys :: "pyval \<Rightarrow> exn + string list" where
  "py_keys (PDict kvs) = Inr (map fst kvs)"
| "py_keys v = Inl AttributeError"

section \<open>The response unwrapper\<close>

text \<open>
  \<^verbatim>\<open>SherpaClient._parse_soap_response\<close>. The XML parser is a library outside the
  repository and is a parameter \<open>xmltodict_parse\<close> of the model. Logging is not
  modelled, except where evaluating a log argument can raise (line 139). The
  \<^verbatim>\<open>service_name\<close> argument is used for logging only and is left out.
\<close>

definition envelope_keys :: "string list" where
  "envelope_keys = [''soap:Envelope'', ''soap12:Envelope'', ''Envelope'']"

definition body_keys :: "string list" where
  "body_keys = [''soap:Body'', ''soap12:Body'', ''Body'']"

text \<open>
  Lines 130-133, the inner loop: the first body key present in the envelope assigns
  \<open>soap_body\<close> and leaves the loop; with no key present \<open>soap_body\<close> keeps its value.
\<close>

fun find_body_in_envelope :: "pyval \<Rightarrow> string list \<Rightarrow> pyval \<Rightarrow> exn + pyval" where
  "find_body_in_envelope envelope [] soap_body = Inr soap_body"
| "find_body_in_envelope envelope (body_key # rest) soap_body =
     (case py_in body_key envelope of
        Inl e \<Rightarrow> Inl e
      | Inr True \<Rightarrow> py_getitem envelope body_key
      | Inr False \<Rightarrow> find_body_in_envelope envelope rest soap_body)"

text \<open>
  Lines 127-135, the outer loop: every envelope key present in the parsed document is
  searched for a body, and the loop is left as soon as \<open>soap_body\<close> is true.
\<close>

fun find_soap_body :: "pyval \<Rightarrow> string list \<Rightarrow> pyval \<Rightarrow> exn + pyval" where
  "find_soap_body xml_dict [] soap_body = Inr soap_body"
| "find_soap_body xml_dict (key # rest) soap_body =
     (case py_in key xml_dict of
        Inl e \<Rightarrow> Inl e
      | Inr False \<Rightarrow> find_soap_body xml_dict rest soap_body
      | Inr True \<Rightarrow>
          (case py_getitem xml_dict key of
             Inl e \<Rightarrow> Inl e
           | Inr envelope \<Rightarrow>
               (case find_body_in_envelope envelope body_keys soap_body of
                  Inl e \<Rightarrow> Inl e
                | Inr soap_body' \<Rightarrow>
                    if truthy soap_body' then Inr soap_body'
                    else find_soap_body xml_dict rest soap_body')))"

text \<open>
  Lines 145-158, the scan of the body's entries for the response data, which starts
  as \<^verbatim>\<open>None\<close>. An entry whose value is not a dict, or is a dict that has neither key
  and whose own key does not mention \<^verbatim>\<open>Response\<close>, is passed over.
\<close>

fun scan_body :: "(string \<times> pyval) list \<Rightarrow> pyval" where
  "scan_body [] = PNone"
| "scan_body ((key, PDict vs) # rest) =
     (case map_of vs ''Result'' of
        Some r \<Rightarrow> r
      | None \<Rightarrow>
          (case map_of vs ''ResponseValue'' of
             Some r \<Rightarrow> r
           | None \<Rightarrow>
               if endswith key ''Response'' \<or> contains key ''Response'' then PDict vs
               else scan_body rest))"
| "scan_body ((key, v) # rest) = scan_body rest"

definition raw_response :: "string \<Rightarrow> pyval" where
  "raw_response xml_response = PDict [(''raw_response'', PStr xml_response)]"

text \<open>Lines 142-166: what is returned once a true \<open>soap_body\<close> is at hand.\<close>

definition unwrap_body :: "string \<Rightarrow> pyval \<Rightarrow> exn + pyval" where
  "unwrap_body xml_response soap_body =
     (case py_items soap_body of
        Inl e \<Rightarrow> Inl e
      | Inr entries \<Rightarrow>
          (let response_data = scan_body entries in
           if truthy response_data then Inr response_data
           else Inr (if is_dict soap_body then soap_body else raw_response xml_response)))"

text \<open>Lines 122-166, the body of the \<^verbatim>\<open>try\<close> block.\<close>

definition parse_soap_response_try :: "(string \<Rightarrow> exn + pyval) \<Rightarrow> string \<Rightarrow> exn + pyval" where
  "parse_soap_response_try xmltodict_parse xml_response =
     (case xmltodict_parse xml_response of
        Inl e \<Rightarrow> Inl e
      | Inr xml_dict \<Rightarrow>
          (case find_soap_body xml_dict envelope_keys PNone of
             Inl e \<Rightarrow> Inl e
           | Inr soap_body \<Rightarrow>
               if \<not> truthy soap_body then
                 (case py_keys xml_dict of
                    Inl e \<Rightarrow> Inl e
                  | Inr ks \<Rightarrow> Inr (raw_response xml_response))
               else unwrap_body xml_response soap_body))"

text \<open>Lines 121-172: every exception of the block is turned into the fallback.\<close>

definition parse_soap_response :: "(string \<Rightarrow> exn + pyval) \<Rightarrow> string \<Rightarrow> pyval" where
  "parse_soap_response xmltodict_parse xml_response =
     (case parse_soap_response_try xmltodict_parse xml_response of
        Inl e \<Rightarrow> raw_response xml_response
      | Inr v \<Rightarrow> v)"

section \<open>The request dispatcher\<close>

subsection \<open>Session headers\<close>

text \<open>
  \<^verbatim>\<open>Session.headers\<close> is a \<^verbatim>\<open>CaseInsensitiveDict\<close> of the requests library: it
  stores, under the lower-cased key, the key as last written and the value. Header
  names are ASCII, so lower-casing maps \<^verbatim>\<open>A\<close>..\<^verbatim>\<open>Z\<close> to \<^verbatim>\<open>a\<close>..\<^verbatim>\<open>z\<close>.
\<close>

definition lower_char :: "char \<Rightarrow> char" where
  "lower_char c =
     (let n = (of_char c :: nat) in if 65 \<le> n \<and> n \<le> 90 then char_of (n + 32) else c)"

definition lower :: "string \<Rightarrow> string" where
  "lower s = map lower_char s"

type_synonym ci_dict = "string \<rightharpoonup> string \<times> string"

definition ci_set :: "ci_dict \<Rightarrow> string \<Rightarrow> string \<Rightarrow> ci_dict" where
  "ci_set h k v = h(lower k \<mapsto> (k, v))"

definition ci_get :: "ci_dict \<Rightarrow> string \<Rightarrow> string option" where
  "ci_get h k = map_option snd (h (lower k))"

text \<open>\<^verbatim>\<open>headers.update({...})\<close> writes the entries one after the other.\<close>

fun ci_update :: "ci_dict \<Rightarrow> (string \<times> string) list \<Rightarrow> ci_dict" where
  "ci_update h [] = h"
| "ci_update h ((k, v) # kvs) = ci_update (ci_set h k v) kvs"

subsection \<open>The client\<close>

record client =
  base_url :: string
  timeout :: nat
  headers :: ci_dict

record request =
  req_url :: string
  req_headers :: ci_dict
  req_data :: string
  req_timeout :: nat

record response =
  status_code :: int
  resp_text :: string

definition construction_headers :: "(string \<times> string) list" where
  "construction_headers =
     [(''Content-Type'', ''application/soap+xml; charset=utf-8''),
      (''User-Agent'', ''PostmanRuntime/7.32.3''),
      (''Accept'', ''*/*''),
      (''Accept-Encoding'', ''gzip, deflate, br''),
      (''Connection'', ''keep-alive'')]"

text \<open>
  \<^verbatim>\<open>SherpaClient.__init__\<close> (lines 33-42). \<open>session_defaults\<close> are the headers a new
  \<^verbatim>\<open>Session()\<close> starts with, \<open>auth_base_url\<close> is \<^verbatim>\<open>auth.base_url\<close>.
\<close>

definition init_client :: "ci_dict \<Rightarrow> string \<Rightarrow> nat \<Rightarrow> client" where
  "init_client session_defaults auth_base_url tmo =
     \<lparr>base_url = auth_base_url, timeout = tmo,
      headers = ci_update session_defaults construction_headers\<rparr>"

subsection \<open>The target URL\<close>

text \<open>
  \<^verbatim>\<open>s.replace(old, new)\<close>: every occurrence of \<open>old\<close>, found from left to right
  without overlap, is replaced. With an empty \<open>old\<close> Python puts \<open>new\<close> before every
  character and at the end.
\<close>

function py_replace :: "string \<Rightarrow> string \<Rightarrow> string \<Rightarrow> string" where
  "py_replace old new s =
     (if old = [] then concat (map (\<lambda>c. new @ [c]) s) @ new
      else if s = [] then []
      else if startswith s old then new @ py_replace old new (drop (length old) s)
      else hd s # py_replace old new (tl s))"
  by pat_completeness auto
termination
  by (relation "measure (\<lambda>(old, new, s). length s)") auto

declare py_replace.simps [simp del]

text \<open>\<^verbatim>\<open>s.split("?")[0]\<close>: the part of \<open>s\<close> before its first question mark.\<close>

definition split_query_head :: "string \<Rightarrow> string" where
  "split_query_head s = takeWhile (\<lambda>c. c \<noteq> CHR ''?'') s"

text \<open>Lines 68-70.\<close>

definition target_url :: "string \<Rightarrow> string" where
  "target_url b =
     (let url = split_query_head (py_replace ''?wsdl'' [] b) in
      if \<not> endswith url ''.asmx'' then url @ ''/Sherpa.asmx'' else url)"

subsection \<open>One attempt\<close>

text \<open>Line 64: the value of the action header, double quotes included.\<close>

definition soap_action :: "string \<Rightarrow> string" where
  "soap_action service_name =
     [CHR 0x22] @ ''http://sherpa.sherpaan.nl/'' @ service_name @ [CHR 0x22]"

text \<open>
  \<^verbatim>\<open>Response.raise_for_status\<close> of the requests library raises an \<^verbatim>\<open>HTTPError\<close> for
  a status code from 400 to 599 and returns for every other code.
\<close>

definition raise_for_status :: "response \<Rightarrow> exn option" where
  "raise_for_status r =
     (if 400 \<le> status_code r \<and> status_code r < 600 then Some (HTTPError (status_code r))
      else None)"

text \<open>Lines 63-65: the per-call header is written into the shared session headers.\<close>

definition set_soap_action :: "client \<Rightarrow> string \<Rightarrow> client" where
  "set_soap_action c service_name =
     c\<lparr>headers := ci_update (headers c) [(''SOAPAction'', soap_action service_name)]\<rparr>"

text \<open>
  Lines 68-70 and 81-85: what \<^verbatim>\<open>Session.post\<close> is called with. The session's
  headers go out with the request; the envelope is the request's data (a byte string
  here, so \<^verbatim>\<open>encode('utf-8')\<close> has nothing left to do).
\<close>

definition post_request :: "client \<Rightarrow> string \<Rightarrow> request" where
  "post_request c soap_envelope =
     \<lparr>req_url = target_url (base_url c), req_headers = headers c,
      req_data = soap_envelope, req_timeout = timeout c\<rparr>"

text \<open>
  Lines 63-105, the function under the \<^verbatim>\<open>retry\<close> decorator. \<open>post n\<close> is what
  \<^verbatim>\<open>Session.post\<close> does with the request of attempt \<open>n\<close>: it returns a response or
  raises. The \<^verbatim>\<open>except\<close> block logs and raises the exception again. The result
  comes with the client after the call and the request that was sent.
\<close>

definition call_soap_service_body ::
  "(nat \<Rightarrow> request \<Rightarrow> exn + response) \<Rightarrow> (string \<Rightarrow> exn + pyval) \<Rightarrow> nat \<Rightarrow>
   client \<Rightarrow> string \<Rightarrow> string \<Rightarrow> (exn + pyval) \<times> client \<times> request" where
  "call_soap_service_body post xmltodict_parse n c service_name soap_envelope =
     (let c' = set_soap_action c service_name;
          req = post_request c' soap_envelope
      in (case post n req of
            Inl e \<Rightarrow> (Inl e, c', req)
          | Inr r \<Rightarrow>
              (case raise_for_status r of
                 Some e \<Rightarrow> (Inl e, c', req)
               | None \<Rightarrow> (Inr (parse_soap_response xmltodict_parse (resp_text r)), c', req))))"

subsection \<open>The retry decorator\<close>

text \<open>
  \<^verbatim>\<open>wait_exponential(multiplier=1, min=4, max=10)\<close> of tenacity, after attempt \<open>n\<close>
  (counted from 1): \<^verbatim>\<open>max(max(0, min), min(multiplier * 2 ** (n - 1), max))\<close>.
\<close>

definition wait_exponential :: "nat \<Rightarrow> nat" where
  "wait_exponential n = max (max 0 4) (min (1 * 2 ^ (n - 1)) 10)"

text \<open>\<^verbatim>\<open>stop_after_attempt(3)\<close>: stop once the attempt number has reached 3.\<close>

definition stop_after_attempt :: "nat \<Rightarrow> bool" where
  "stop_after_attempt n = (3 \<le> n)"

record outcome =
  result :: "exn + pyval"
  requests :: "request list"
  sleeps :: "nat list"
  final :: client

text \<open>
  The loop of tenacity's \<^verbatim>\<open>retry\<close> with its defaults (retry on every
  \<^verbatim>\<open>Exception\<close>, \<^verbatim>\<open>reraise=False\<close>): a returned value ends the loop; after an
  exception the loop either stops, raising \<^verbatim>\<open>RetryError\<close> around the last attempt,
  or sleeps and runs attempt \<open>n + 1\<close>. The outcome lists the requests sent and the
  sleeps taken, in order.
\<close>

function call_soap_service_from ::
  "(nat \<Rightarrow> request \<Rightarrow> exn + response) \<Rightarrow> (string \<Rightarrow> exn + pyval) \<Rightarrow> nat \<Rightarrow>
   client \<Rightarrow> string \<Rightarrow> string \<Rightarrow> outcome" where
  "call_soap_service_from post xmltodict_parse n c service_name soap_envelope =
     (case call_soap_service_body post xmltodict_parse n c service_name soap_envelope of
        (Inr v, c', req) \<Rightarrow> \<lparr>result = Inr v, requests = [req], sleeps = [], final = c'\<rparr>
      | (Inl e, c', req) \<Rightarrow>
          if stop_after_attempt n
          then \<lparr>result = Inl (RetryError e), requests = [req], sleeps = [], final = c'\<rparr>
          else (let rest = call_soap_service_from post xmltodict_parse (Suc n) c'
                             service_name soap_envelope
                in rest\<lparr>requests := req # requests rest,
                        sleeps := wait_exponential n # sleeps rest\<rparr>))"
  by pat_completeness auto
termination
  by (relation "measure (\<lambda>(post, parse, n, c, s, e). 3 - n)")
     (auto simp: stop_after_attempt_def)

declare call_soap_service_from.simps [simp del]

text \<open>\<^verbatim>\<open>SherpaClient.call_soap_service\<close>: the decorated function; attempts count from 1.\<close>

definition call_soap_service ::
  "(nat \<Rightarrow> request \<Rightarrow> exn + response) \<Rightarrow> (string \<Rightarrow> exn + pyval) \<Rightarrow>
   client \<Rightarrow> string \<Rightarrow> string \<Rightarrow> outcome" where
  "call_soap_service post xmltodict_parse c service_name soap_envelope =
     call_soap_service_from post xmltodict_parse 1 c service_name soap_envelope"

section \<open>Reference descriptions\<close>

text \<open>
  Declarative descriptions the code is compared with: what the scan of the body
  locates, and the readings of the specification that the theorems below confirm or
  refute. None of them is used by the model of the code above.
\<close>

subsection \<open>The payload of a body\<close>

text \<open>
  An entry of the body answers the scan when its value is a dict that has the key
  \<^verbatim>\<open>Result\<close> or the key \<^verbatim>\<open>ResponseValue\<close>, or whose own key mentions
  \<^verbatim>\<open>Response\<close>.
\<close>

fun answers :: "string \<times> pyval \<Rightarrow> bool" where
  "answers (key, PDict vs) =
     (map_of vs ''Result'' \<noteq> None \<or> map_of vs ''ResponseValue'' \<noteq> None \<or>
      contains key ''Response'')"
| "answers (key, v) = False"

text \<open>
  The payload of an entry: the value under \<^verbatim>\<open>Result\<close>, else the value under
  \<^verbatim>\<open>ResponseValue\<close>, else the entry's whole value.
\<close>

fun payload_of :: "string \<times> pyval \<Rightarrow> pyval" where
  "payload_of (key, PDict vs) =
     (case map_of vs ''Result'' of
        Some r \<Rightarrow> r
      | None \<Rightarrow> (case map_of vs ''ResponseValue'' of Some r \<Rightarrow> r | None \<Rightarrow> PDict vs))"
| "payload_of (key, v) = v"

text \<open>The located payload is that of the first entry that answers, if there is one.\<close>

definition located_payload :: "(string \<times> pyval) list \<Rightarrow> pyval option" where
  "located_payload entries = map_option payload_of (find answers entries)"


subsection \<open>The specification's words\<close>

text \<open>
  Steps 2 and 3 of the specification's algorithm: the first key of a list that is
  present in a mapping, and the body found in the first envelope present.
\<close>

fun first_present :: "string list \<Rightarrow> (string \<times> pyval) list \<Rightarrow> pyval option" where
  "first_present [] kvs = None"
| "first_present (k # ks) kvs =
     (case map_of kvs k of Some v \<Rightarrow> Some v | None \<Rightarrow> first_present ks kvs)"


text \<open>
  Step 5 as the specification words it: only the first entry whose value is a mapping
  is looked at, and whatever is found there is returned, the body itself otherwise.
\<close>

fun spec_first_mapping_payload :: "(string \<times> pyval) list \<Rightarrow> pyval option" where
  "spec_first_mapping_payload [] = None"
| "spec_first_mapping_payload ((key, PDict vs) # rest) =
     (case map_of vs ''Result'' of
        Some r \<Rightarrow> Some r
      | None \<Rightarrow>
          (case map_of vs ''ResponseValue'' of
             Some r \<Rightarrow> Some r
           | None \<Rightarrow> if contains key ''Response'' then Some (PDict vs) else None))"
| "spec_first_mapping_payload ((key, v) # rest) = spec_first_mapping_payload rest"

definition spec_unwrap_body :: "(string \<times> pyval) list \<Rightarrow> pyval" where
  "spec_unwrap_body entries =
     (case spec_first_mapping_payload entries of Some p \<Rightarrow> p | None \<Rightarrow> PDict entries)"

text \<open>
  The target URL as the specification words it: the base URL without its query
  string, with the endpoint suffix appended unless the base already ends in it.
\<close>

definition spec_target_url :: "string \<Rightarrow> string" where
  "spec_target_url b =
     (let url = split_query_head b in
      if endswith url ''/Sherpa.asmx'' then url else url @ ''/Sherpa.asmx'')"

subsection \<open>Sample inputs\<close>

text \<open>
  The parsed form of
  \<^verbatim>\<open><soap:Envelope><soap:Body>...</soap:Body></soap:Envelope>\<close>
  for a given parsed content of the body element, and of a response document whose
  \<^verbatim>\<open>GetStatusResponse\<close> element holds one child.
\<close>

definition soap_document :: "pyval \<Rightarrow> pyval" where
  "soap_document body = PDict [(''soap:Envelope'', PDict [(''soap:Body'', body)])]"

definition status_body :: "string \<Rightarrow> pyval \<Rightarrow> pyval" where
  "status_body child v = PDict [(''GetStatusResponse'', PDict [(child, v)])]"

definition sample_client :: client where
  "sample_client = init_client Map.empty ''https://sherpa.example/Sherpa/Sherpa.asmx?wsdl'' 300"

definition sample_response :: "int \<Rightarrow> response" where
  "sample_response code = \<lparr>status_code = code, resp_text = ''<r/>''\<rparr>"

section \<open>Facts about the unwrapper\<close>

subsection \<open>String tests\<close>

lemma startswith_append: "startswith (p @ s) p"
  by (induction p) auto

lemma startswith_iff: "startswith s p \<longleftrightarrow> (\<exists>t. s = p @ t)"
proof (induction s p rule: startswith.induct)
  case (1 s)
  show ?case by simp
next
  case (2 p ps)
  show ?case by simp
next
  case (3 c cs p ps)
  then show ?case by auto
qed

lemma endswith_iff: "endswith s suf \<longleftrightarrow> (\<exists>t. s = t @ suf)"
proof -
  have "endswith s suf \<longleftrightarrow> (\<exists>t. rev s = rev suf @ t)"
    by (simp add: endswith_def startswith_iff)
  also have "\<dots> \<longleftrightarrow> (\<exists>t. s = t @ suf)"
  proof
    assume "\<exists>t. rev s = rev suf @ t"
    then obtain t where "rev s = rev suf @ t" ..
    then have "rev (rev s) = rev (rev suf @ t)" by simp
    then have "s = rev t @ suf" by simp
    then show "\<exists>t. s = t @ suf" ..
  next
    assume "\<exists>t. s = t @ suf"
    then obtain t where "s = t @ suf" ..
    then have "rev s = rev suf @ rev t" by simp
    then show "\<exists>t. rev s = rev suf @ t" ..
  qed
  finally show ?thesis .
qed

lemma contains_iff: "contains s sub \<longleftrightarrow> (\<exists>p t. s = p @ sub @ t)"
proof (induction s)
  case Nil
  show ?case by auto
next
  case (Cons c cs)
  show ?case
  proof
    assume "contains (c # cs) sub"
    then consider "startswith (c # cs) sub" | "contains cs sub" by auto
    then show "\<exists>p t. c # cs = p @ sub @ t"
    proof cases
      case 1
      then obtain t where "c # cs = sub @ t" by (auto simp: startswith_iff)
      then have "c # cs = [] @ sub @ t" by simp
      then show ?thesis by blast
    next
      case 2
      then obtain p t where "cs = p @ sub @ t" using Cons.IH by blast
      then have "c # cs = (c # p) @ sub @ t" by simp
      then show ?thesis by blast
    qed
  next
    assume "\<exists>p t. c # cs = p @ sub @ t"
    then obtain p t where eq: "c # cs = p @ sub @ t" by blast
    show "contains (c # cs) sub"
    proof (cases p)
      case Nil
      with eq have "startswith (c # cs) sub" by (auto simp: startswith_iff)
      then show ?thesis by simp
    next
      case (Cons a p')
      with eq have "cs = p' @ sub @ t" by simp
      then have "contains cs sub" using Cons.IH by blast
      then show ?thesis by simp
    qed
  qed
qed

lemma endswith_contains: "endswith s sub \<Longrightarrow> contains s sub"
proof -
  assume "endswith s sub"
  then obtain t where "s = t @ sub" by (auto simp: endswith_iff)
  then have "s = t @ sub @ []" by simp
  then show ?thesis unfolding contains_iff by blast
qed

subsection \<open>The scan of the body\<close>

lemma scan_body_located:
  "scan_body entries = (case located_payload entries of None \<Rightarrow> PNone | Some p \<Rightarrow> p)"
proof (induction entries rule: scan_body.induct)
  case 1
  show ?case by (simp add: located_payload_def)
next
  case (2 key vs rest)
  then show ?case
    using endswith_contains [of key "''Response''"]
    by (auto simp: located_payload_def split: option.splits)
qed (simp_all add: located_payload_def)

lemma located_payload_first:
  "\<not> list_ex answers pre \<Longrightarrow> answers e \<Longrightarrow>
   located_payload (pre @ e # post) = Some (payload_of e)"
  by (induction pre) (auto simp: located_payload_def)

lemma located_payload_none:
  "\<not> list_ex answers entries \<Longrightarrow> located_payload entries = None"
  by (induction entries) (auto simp: located_payload_def)

subsection \<open>Locating the body\<close>

lemma find_body_in_envelope_dict:
  "find_body_in_envelope (PDict env) ks sb =
     Inr (case first_present ks env of None \<Rightarrow> sb | Some b \<Rightarrow> b)"
  by (induction ks) (auto split: option.splits)


lemma parse_soap_response_unfold:
  "xmltodict_parse xml = Inr d \<Longrightarrow> find_soap_body d envelope_keys PNone = Inr sb \<Longrightarrow>
   parse_soap_response xmltodict_parse xml =
     (if truthy sb
      then (case unwrap_body xml sb of Inl e \<Rightarrow> raw_response xml | Inr v \<Rightarrow> v)
      else raw_response xml)"
  by (cases d) (simp_all add: parse_soap_response_def parse_soap_response_try_def)

lemma parse_soap_response_raised:
  "xmltodict_parse xml = Inr d \<Longrightarrow> find_soap_body d envelope_keys PNone = Inl e \<Longrightarrow>
   parse_soap_response xmltodict_parse xml = raw_response xml"
  by (simp add: parse_soap_response_def parse_soap_response_try_def)

lemma parse_soap_response_parse_error:
  "xmltodict_parse xml = Inl e \<Longrightarrow> parse_soap_response xmltodict_parse xml = raw_response xml"
  by (simp add: parse_soap_response_def parse_soap_response_try_def)

lemma unwrap_body_dict:
  "unwrap_body xml (PDict entries) =
     Inr (case located_payload entries of
            None \<Rightarrow> PDict entries
          | Some p \<Rightarrow> if truthy p then p else PDict entries)"
  by (simp add: unwrap_body_def scan_body_located split: option.splits)

lemma unwrap_body_not_dict:
  "\<not> is_dict sb \<Longrightarrow> unwrap_body xml sb = Inl AttributeError"
  by (cases sb) (simp_all add: unwrap_body_def)

lemma find_soap_body_soap_envelope:
  assumes "map_of kvs ''soap:Envelope'' = Some (PDict env)"
    and "map_of env ''soap:Body'' = Some b"
    and "truthy b"
  shows "find_soap_body (PDict kvs) envelope_keys PNone = Inr b"
  using assms by (simp add: envelope_keys_def body_keys_def find_body_in_envelope_dict)

lemma find_body_in_envelope_falsy:
  assumes "\<forall>bk \<in> set bks. \<forall>v. py_getitem env bk = Inr v \<longrightarrow> \<not> truthy v"
    and "\<not> truthy sb"
    and "find_body_in_envelope env bks sb = Inr sb'"
  shows "\<not> truthy sb'"
  using assms
proof (induction bks)
  case Nil
  then show ?case by simp
next
  case (Cons bk bks)
  show ?case
  proof (cases "py_in bk env")
    case (Inl e)
    with Cons.prems show ?thesis by simp
  next
    case (Inr present)
    show ?thesis
    proof (cases present)
      case True
      with Inr Cons.prems have "py_getitem env bk = Inr sb'" by simp
      with Cons.prems(1) show ?thesis by simp
    next
      case False
      with Inr Cons.prems have "find_body_in_envelope env bks sb = Inr sb'" by simp
      with Cons.IH Cons.prems show ?thesis by simp
    qed
  qed
qed

lemma find_soap_body_falsy:
  assumes "\<forall>ek \<in> set eks. \<forall>env. map_of kvs ek = Some env \<longrightarrow>
             (\<forall>bk \<in> set body_keys. \<forall>v. py_getitem env bk = Inr v \<longrightarrow> \<not> truthy v)"
    and "\<not> truthy sb"
    and "find_soap_body (PDict kvs) eks sb = Inr sb'"
  shows "\<not> truthy sb'"
  using assms
proof (induction eks arbitrary: sb)
  case Nil
  then show ?case by simp
next
  case (Cons ek eks)
  have later: "\<forall>ek \<in> set eks. \<forall>env. map_of kvs ek = Some env \<longrightarrow>
             (\<forall>bk \<in> set body_keys. \<forall>v. py_getitem env bk = Inr v \<longrightarrow> \<not> truthy v)"
    using Cons.prems(1) by simp
  show ?case
  proof (cases "map_of kvs ek")
    case None
    with Cons.prems have "find_soap_body (PDict kvs) eks sb = Inr sb'" by simp
    with Cons.IH later Cons.prems(2) show ?thesis by blast
  next
    case (Some env)
    with Cons.prems(1)
    have here: "\<forall>bk \<in> set body_keys. \<forall>v. py_getitem env bk = Inr v \<longrightarrow> \<not> truthy v"
      by simp
    show ?thesis
    proof (cases "find_body_in_envelope env body_keys sb")
      case (Inl e)
      with Some Cons.prems(3) show ?thesis by simp
    next
      case (Inr sb1)
      from find_body_in_envelope_falsy [OF here Cons.prems(2) Inr]
      have falsy: "\<not> truthy sb1" .
      with Some Inr Cons.prems(3)
      have "find_soap_body (PDict kvs) eks sb1 = Inr sb'" by simp
      with Cons.IH later falsy show ?thesis by blast
    qed
  qed
qed

lemma distinct_envelope_keys: "distinct envelope_keys"
  by (simp add: envelope_keys_def)





text \<open>
  The parsed form of a document has its root element as the one key, so at most one
  envelope key is present in it.
\<close>

lemma filter_eq_distinct: "distinct ks \<Longrightarrow> length (filter (\<lambda>k. k = x) ks) \<le> 1"
  by (induction ks) (auto simp: filter_empty_conv)

lemma single_root_one_envelope:
  "length (filter (\<lambda>k. map_of [(root, envelope)] k \<noteq> None) envelope_keys) \<le> 1"
proof -
  have "(\<lambda>k. map_of [(root, envelope)] k \<noteq> None) = (\<lambda>k. k = root)"
    by auto
  with filter_eq_distinct [OF distinct_envelope_keys, of root] show ?thesis
    by simp
qed

text \<open>
  The \<^verbatim>\<open>except\<close> clause of the unwrapper: whatever is raised inside the block, by
  the XML parser or by the traversal, ends in the fallback with the original text.
\<close>

lemma parse_soap_response_caught:
  "parse_soap_response_try xmltodict_parse xml = Inl e \<Longrightarrow>
   parse_soap_response xmltodict_parse xml = raw_response xml"
  by (simp add: parse_soap_response_def)

section \<open>Claims about the unwrapper\<close>

text \<open>
  C1 (amended). A response with status 200 whose parsed text has a
  \<^verbatim>\<open>soap:Envelope\<close> with a \<^verbatim>\<open>soap:Body\<close> whose first entry is a mapping with the
  key \<^verbatim>\<open>Result\<close>: the unwrapper, and with it the attempt, returns the value under
  \<^verbatim>\<open>Result\<close> when that value is true, and the whole body mapping when it is
  \<^verbatim>\<open>None\<close> or empty.
\<close>

theorem result_returned_when_true:
  assumes "xmltodict_parse xml = Inr (PDict kvs)"
    and "map_of kvs ''soap:Envelope'' = Some (PDict env)"
    and "map_of env ''soap:Body'' = Some (PDict ((key, PDict vs) # rest))"
    and "map_of vs ''Result'' = Some r"
    and "post n (post_request (set_soap_action c service_name) soap_envelope) = Inr resp"
    and "status_code resp = 200"
    and "resp_text resp = xml"
  shows "parse_soap_response xmltodict_parse xml =
           (if truthy r then r else PDict ((key, PDict vs) # rest)) \<and>
         fst (call_soap_service_body post xmltodict_parse n c service_name soap_envelope) =
           Inr (if truthy r then r else PDict ((key, PDict vs) # rest))"
proof -
  let ?body = "PDict ((key, PDict vs) # rest)"
  have "truthy ?body" by simp
  with assms(2,3) have found: "find_soap_body (PDict kvs) envelope_keys PNone = Inr ?body"
    by (rule find_soap_body_soap_envelope)
  have "answers (key, PDict vs)" using assms(4) by simp
  then have "located_payload ([] @ (key, PDict vs) # rest) = Some (payload_of (key, PDict vs))"
    by (intro located_payload_first) simp_all
  then have located: "located_payload ((key, PDict vs) # rest) = Some r"
    using assms(4) by simp
  have unwrapped: "parse_soap_response xmltodict_parse xml = (if truthy r then r else ?body)"
    using parse_soap_response_unfold [of xmltodict_parse xml "PDict kvs" ?body,
        OF assms(1) found] located
    by (simp add: unwrap_body_dict)
  have "raise_for_status resp = None"
    using assms(6) by (simp add: raise_for_status_def)
  then have "fst (call_soap_service_body post xmltodict_parse n c service_name soap_envelope) =
      Inr (parse_soap_response xmltodict_parse xml)"
    using assms(5,7) by (simp add: call_soap_service_body_def Let_def)
  with unwrapped show ?thesis by simp
qed

theorem result_returned_when_true_witness:
  "parse_soap_response (\<lambda>t. Inr (soap_document (status_body ''Result'' (PStr ''OK'')))) ''<r/>''
     = PStr ''OK'' \<and>
   fst (call_soap_service_body (\<lambda>n q. Inr (sample_response 200))
         (\<lambda>t. Inr (soap_document (status_body ''Result'' (PStr ''OK'')))) 1
         sample_client ''GetStatus'' ''<e/>'') = Inr (PStr ''OK'')"
proof -
  have h3: "map_of [(''soap:Body'', status_body ''Result'' (PStr ''OK''))] ''soap:Body'' =
      Some (PDict ((''GetStatusResponse'', PDict [(''Result'', PStr ''OK'')]) # []))"
    by (simp add: status_body_def)
  from result_returned_when_true [where xmltodict_parse =
      "\<lambda>t. Inr (soap_document (status_body ''Result'' (PStr ''OK'')))"
      and xml = "''<r/>''" and r = "PStr ''OK''"
      and post = "\<lambda>n q. Inr (sample_response 200)" and resp = "sample_response 200"
      and n = 1 and c = sample_client and service_name = "''GetStatus''"
      and soap_envelope = "''<e/>''", OF _ _ h3]
  show ?thesis by (simp add: soap_document_def sample_response_def)
qed

theorem empty_result_not_returned:
  "parse_soap_response (\<lambda>t. Inr (soap_document (status_body ''Result'' PNone))) ''<r/>''
     = status_body ''Result'' PNone \<and>
   parse_soap_response (\<lambda>t. Inr (soap_document (status_body ''Result'' PNone))) ''<r/>''
     \<noteq> PNone"
  by code_simp

text \<open>
  C2. The unwrapper's return value is declared and documented to be a dictionary, and
  the path that returns the body checks for one; the path that returns the located
  payload does not: a \<^verbatim>\<open>Result\<close> element holding text comes back as a string.
\<close>

theorem text_result_is_not_a_mapping:
  "parse_soap_response (\<lambda>t. Inr (soap_document (status_body ''Result'' (PStr ''OK'')))) ''<r/>''
     = PStr ''OK'' \<and>
   is_dict (parse_soap_response
     (\<lambda>t. Inr (soap_document (status_body ''Result'' (PStr ''OK'')))) ''<r/>'') = False"
  by code_simp



text \<open>
  C6 (amended). Given a non-empty mapping as the located body, the unwrapper goes
  through its entries up to the first one that answers the scan (a mapping value with
  the key \<^verbatim>\<open>Result\<close>, or with the key \<^verbatim>\<open>ResponseValue\<close>, or under a key that
  mentions \<^verbatim>\<open>Response\<close>) and takes that entry's payload; it returns the payload if
  it is true, and the body mapping unchanged if no entry answers or the payload is
  false.
\<close>

theorem payload_or_body:
  assumes "xmltodict_parse xml = Inr d"
    and "find_soap_body d envelope_keys PNone = Inr (PDict entries)"
    and "entries \<noteq> []"
  shows "parse_soap_response xmltodict_parse xml =
           (case located_payload entries of
              None \<Rightarrow> PDict entries
            | Some p \<Rightarrow> if truthy p then p else PDict entries)"
  using parse_soap_response_unfold [of xmltodict_parse xml d "PDict entries", OF assms(1,2)]
    assms(3)
  by (simp add: unwrap_body_dict)

theorem payload_or_body_witness:
  "parse_soap_response
     (\<lambda>t. Inr (soap_document (PDict [(''Header'', PDict [(''Id'', PStr ''7'')]),
        (''GetStockResponse'', PDict [(''ResponseValue'', PStr ''12'')])]))) ''<r/>''
   = PStr ''12''"
proof -
  let ?entries = "[(''Header'', PDict [(''Id'', PStr ''7'')]),
        (''GetStockResponse'', PDict [(''ResponseValue'', PStr ''12'')])]"
  have found: "find_soap_body (soap_document (PDict ?entries)) envelope_keys PNone =
      Inr (PDict ?entries)"
    by code_simp
  have located: "located_payload ?entries = Some (PStr ''12'')"
    by code_simp
  from payload_or_body [of "\<lambda>t. Inr (soap_document (PDict ?entries))" "''<r/>''"
      "soap_document (PDict ?entries)" ?entries, OF refl found]
  show ?thesis by (simp add: located)
qed

theorem false_payload_differs_from_spec:
  "parse_soap_response
     (\<lambda>t. Inr (soap_document (status_body ''ResponseValue'' PNone))) ''<r/>''
     = status_body ''ResponseValue'' PNone \<and>
   spec_unwrap_body [(''GetStatusResponse'', PDict [(''ResponseValue'', PNone)])] = PNone"
  by code_simp

text \<open>
  C9. When the payload that the scan of a located body locates is false, the
  unwrapper returns the whole body mapping; a located body that is not a mapping
  gives the fallback with the original text.
\<close>

theorem false_payload_gives_body:
  assumes "xmltodict_parse xml = Inr d"
    and "find_soap_body d envelope_keys PNone = Inr sb"
    and "truthy sb"
  shows "(\<forall>entries p. sb = PDict entries \<longrightarrow> located_payload entries = Some p \<longrightarrow>
            \<not> truthy p \<longrightarrow> parse_soap_response xmltodict_parse xml = PDict entries) \<and>
         (\<not> is_dict sb \<longrightarrow> parse_soap_response xmltodict_parse xml = raw_response xml)"
proof -
  note unfold = parse_soap_response_unfold [of xmltodict_parse xml d sb, OF assms(1,2)]
  have "parse_soap_response xmltodict_parse xml = PDict entries"
    if "sb = PDict entries" and "located_payload entries = Some p" and "\<not> truthy p"
    for entries p
    using unfold assms(3) that by (simp add: unwrap_body_dict)
  moreover have "parse_soap_response xmltodict_parse xml = raw_response xml"
    if "\<not> is_dict sb"
    using unfold assms(3) that by (simp add: unwrap_body_not_dict)
  ultimately show ?thesis by blast
qed

theorem false_payload_gives_body_witness:
  "parse_soap_response (\<lambda>t. Inr (soap_document (status_body ''Result'' PNone))) ''<r/>''
     = status_body ''Result'' PNone \<and>
   parse_soap_response (\<lambda>t. Inr (soap_document (PStr ''busy''))) ''<r/>''
     = raw_response ''<r/>''"
proof -
  have f1: "find_soap_body (soap_document (status_body ''Result'' PNone)) envelope_keys PNone =
      Inr (status_body ''Result'' PNone)"
    by code_simp
  have t1: "truthy (status_body ''Result'' PNone)"
    by code_simp
  have l1: "located_payload [(''GetStatusResponse'', PDict [(''Result'', PNone)])] = Some PNone"
    by code_simp
  have f2: "find_soap_body (soap_document (PStr ''busy'')) envelope_keys PNone =
      Inr (PStr ''busy'')"
    by code_simp
  have t2: "truthy (PStr ''busy'')"
    by simp
  from false_payload_gives_body [of "\<lambda>t. Inr (soap_document (status_body ''Result'' PNone))"
      "''<r/>''" "soap_document (status_body ''Result'' PNone)"
      "status_body ''Result'' PNone", OF refl f1 t1] l1
  have w1: "parse_soap_response
      (\<lambda>t. Inr (soap_document (status_body ''Result'' PNone))) ''<r/>'' =
      status_body ''Result'' PNone"
    by (simp add: status_body_def)
  from false_payload_gives_body [of "\<lambda>t. Inr (soap_document (PStr ''busy''))"
      "''<r/>''" "soap_document (PStr ''busy'')" "PStr ''busy''", OF refl f2 t2]
  have w2: "parse_soap_response (\<lambda>t. Inr (soap_document (PStr ''busy''))) ''<r/>'' =
      raw_response ''<r/>''"
    by simp
  from w1 w2 show ?thesis by simp
qed

text \<open>
  C10. When every body value that sits under a body key of an envelope present in
  the parsed mapping is false, the unwrapper returns the fallback with the original
  text: a body key that is present with an empty value counts as no body.
\<close>

theorem false_body_is_no_body:
  assumes "xmltodict_parse xml = Inr (PDict kvs)"
    and "\<forall>ek \<in> set envelope_keys. \<forall>env. map_of kvs ek = Some env \<longrightarrow>
           (\<forall>bk \<in> set body_keys. \<forall>v. py_getitem env bk = Inr v \<longrightarrow> \<not> truthy v)"
  shows "parse_soap_response xmltodict_parse xml = raw_response xml"
proof (cases "find_soap_body (PDict kvs) envelope_keys PNone")
  case (Inl e)
  with assms(1) show ?thesis
    using parse_soap_response_raised [of xmltodict_parse xml "PDict kvs" e] by simp
next
  case (Inr sb)
  have "\<not> truthy PNone" by simp
  with assms(2) have "\<not> truthy sb"
    using Inr by (rule find_soap_body_falsy)
  then show ?thesis
    using parse_soap_response_unfold [of xmltodict_parse xml "PDict kvs" sb, OF assms(1) Inr]
    by simp
qed

theorem false_body_is_no_body_witness:
  "parse_soap_response
     (\<lambda>t. Inr (PDict [(''soap:Envelope'', PDict [(''soap:Body'', PNone)])])) ''<r/>''
   = raw_response ''<r/>''"
proof -
  have falsy: "\<forall>ek \<in> set envelope_keys. \<forall>env.
      map_of [(''soap:Envelope'', PDict [(''soap:Body'', PNone)])] ek = Some env \<longrightarrow>
        (\<forall>bk \<in> set body_keys. \<forall>v. py_getitem env bk = Inr v \<longrightarrow> \<not> truthy v)"
    by (simp add: envelope_keys_def body_keys_def)
  from false_body_is_no_body [of
      "\<lambda>t. Inr (PDict [(''soap:Envelope'', PDict [(''soap:Body'', PNone)])])" "''<r/>''"
      "[(''soap:Envelope'', PDict [(''soap:Body'', PNone)])]", OF refl falsy]
  show ?thesis .
qed

section \<open>Facts about the dispatcher\<close>

subsection \<open>Session headers\<close>

lemma ci_get_ci_set:
  "ci_get (ci_set h k v) k' = (if lower k' = lower k then Some v else ci_get h k')"
  by (simp add: ci_get_def ci_set_def)

lemma ci_set_twice: "ci_set (ci_set h k v) k v = ci_set h k v"
  by (simp add: ci_set_def)

lemma lower_SOAPAction: "lower ''SOAPAction'' = ''soapaction''"
  by code_simp

lemma headers_set_soap_action:
  "headers (set_soap_action c s) = ci_set (headers c) ''SOAPAction'' (soap_action s)"
  by (simp add: set_soap_action_def)

lemma set_soap_action_twice:
  "set_soap_action (set_soap_action c s) s = set_soap_action c s"
  by (simp add: set_soap_action_def ci_set_twice)

lemma set_soap_action_frame:
  "base_url (set_soap_action c s) = base_url c"
  "timeout (set_soap_action c s) = timeout c"
  by (simp_all add: set_soap_action_def)

lemma construction_headers_kept:
  "ci_get (headers (init_client d b t)) ''Content-Type'' =
     Some ''application/soap+xml; charset=utf-8''"
  "ci_get (headers (init_client d b t)) ''User-Agent'' = Some ''PostmanRuntime/7.32.3''"
  "ci_get (headers (init_client d b t)) ''Accept'' = Some ''*/*''"
  "ci_get (headers (init_client d b t)) ''Accept-Encoding'' = Some ''gzip, deflate, br''"
  "ci_get (headers (init_client d b t)) ''Connection'' = Some ''keep-alive''"
  by (simp_all add: init_client_def construction_headers_def ci_get_def ci_set_def
      lower_def lower_char_def)

subsection \<open>One attempt and the loop\<close>

lemma call_soap_service_body_parts:
  "fst (snd (call_soap_service_body post parse n c s env)) = set_soap_action c s"
  "snd (snd (call_soap_service_body post parse n c s env)) =
     post_request (set_soap_action c s) env"
  by (simp_all add: call_soap_service_body_def Let_def split: sum.splits option.splits)

lemma call_soap_service_body_again:
  "call_soap_service_body post parse n (set_soap_action c s) s env =
   call_soap_service_body post parse n c s env"
  by (simp add: call_soap_service_body_def set_soap_action_twice)

lemma call_soap_service_from_again:
  "call_soap_service_from post parse n (set_soap_action c s) s env =
   call_soap_service_from post parse n c s env"
proof -
  have "call_soap_service_from post parse n (set_soap_action c s) s env =
      (case call_soap_service_body post parse n c s env of
        (Inr v, c', req) \<Rightarrow> \<lparr>result = Inr v, requests = [req], sleeps = [], final = c'\<rparr>
      | (Inl e, c', req) \<Rightarrow>
          if stop_after_attempt n
          then \<lparr>result = Inl (RetryError e), requests = [req], sleeps = [], final = c'\<rparr>
          else (let rest = call_soap_service_from post parse (Suc n) c' s env
                in rest\<lparr>requests := req # requests rest,
                        sleeps := wait_exponential n # sleeps rest\<rparr>))"
    by (subst call_soap_service_from.simps) (simp only: call_soap_service_body_again)
  also have "\<dots> = call_soap_service_from post parse n c s env"
    by (rule call_soap_service_from.simps [symmetric])
  finally show ?thesis .
qed

text \<open>
  One turn of the loop, in terms of the outcome of attempt \<open>n\<close> on the client the
  call started with.
\<close>

lemma call_soap_service_from_step:
  "call_soap_service_from post parse n c s env =
     (case fst (call_soap_service_body post parse n c s env) of
        Inr v \<Rightarrow>
          \<lparr>result = Inr v, requests = [post_request (set_soap_action c s) env],
           sleeps = [], final = set_soap_action c s\<rparr>
      | Inl e \<Rightarrow>
          if 3 \<le> n
          then \<lparr>result = Inl (RetryError e),
                requests = [post_request (set_soap_action c s) env],
                sleeps = [], final = set_soap_action c s\<rparr>
          else (let rest = call_soap_service_from post parse (Suc n) c s env
                in rest\<lparr>requests := post_request (set_soap_action c s) env # requests rest,
                        sleeps := wait_exponential n # sleeps rest\<rparr>))"
proof -
  obtain r c' req where body: "call_soap_service_body post parse n c s env = (r, c', req)"
    by (cases "call_soap_service_body post parse n c s env") auto
  with call_soap_service_body_parts [of post parse n c s env]
  have parts: "c' = set_soap_action c s" "req = post_request (set_soap_action c s) env"
    by simp_all
  show ?thesis
    by (subst call_soap_service_from.simps)
      (simp add: body parts stop_after_attempt_def call_soap_service_from_again
        split: sum.splits)
qed

lemma wait_exponential_bounds: "4 \<le> wait_exponential n \<and> wait_exponential n \<le> 10"
  by (simp add: wait_exponential_def)

lemma wait_exponential_first: "wait_exponential 1 = 4" "wait_exponential 2 = 4"
  by (simp_all add: wait_exponential_def)

lemma call_soap_service_from_invariant:
  "final (call_soap_service_from post parse n c s env) = set_soap_action c s \<and>
   set (requests (call_soap_service_from post parse n c s env)) =
     {post_request (set_soap_action c s) env} \<and>
   (\<forall>w \<in> set (sleeps (call_soap_service_from post parse n c s env)). 4 \<le> w \<and> w \<le> 10)"
proof (induction "3 - n" arbitrary: n)
  case 0
  then have "3 \<le> n" by simp
  then show ?case
    by (subst (1 2 3) call_soap_service_from_step) (simp split: sum.splits)
next
  case (Suc k)
  then have "k = 3 - Suc n" and small: "\<not> 3 \<le> n" by simp_all
  from Suc.hyps(1) [OF this(1)] show ?case
    by (subst (1 2 3) call_soap_service_from_step)
      (simp add: small wait_exponential_bounds Let_def split: sum.splits)
qed

subsection \<open>The target URL\<close>

lemma py_replace_Nil: "py_replace (x # old) new [] = []"
  by (simp add: py_replace.simps)

lemma py_replace_skip:
  "CHR ''?'' \<notin> set p \<Longrightarrow>
   py_replace ''?wsdl'' [] (p @ t) = p @ py_replace ''?wsdl'' [] t"
proof (induction p)
  case Nil
  show ?case by simp
next
  case (Cons x p)
  then have "x \<noteq> CHR ''?''" by auto
  then have "py_replace ''?wsdl'' [] (x # p @ t) = x # py_replace ''?wsdl'' [] (p @ t)"
    by (subst py_replace.simps) simp
  with Cons show ?case by simp
qed

lemma py_replace_marker:
  "py_replace ''?wsdl'' [] (''?wsdl'' @ t) = py_replace ''?wsdl'' [] t"
  by (subst py_replace.simps) simp

lemma py_replace_other_query:
  "\<not> startswith q ''wsdl'' \<Longrightarrow>
   py_replace ''?wsdl'' [] (CHR ''?'' # q) = CHR ''?'' # py_replace ''?wsdl'' [] q"
  by (subst py_replace.simps) simp

lemma split_query_head_plain:
  "CHR ''?'' \<notin> set p \<Longrightarrow> split_query_head p = p"
  by (induction p) (auto simp: split_query_head_def)

lemma split_query_head_cut:
  "CHR ''?'' \<notin> set p \<Longrightarrow> split_query_head (p @ CHR ''?'' # r) = p"
  by (induction p) (auto simp: split_query_head_def)

lemma split_query_head_no_mark: "CHR ''?'' \<notin> set (split_query_head s)"
  by (auto simp: split_query_head_def dest: set_takeWhileD)

lemma endswith_suffix: "endswith (u @ suf) suf"
  by (auto simp: endswith_iff)

lemma stripped_base:
  assumes "CHR ''?'' \<notin> set p"
  shows "split_query_head (py_replace ''?wsdl'' [] p) = p"
    and "split_query_head (py_replace ''?wsdl'' [] (p @ ''?wsdl'')) = p"
    and "\<not> startswith q ''wsdl'' \<Longrightarrow>
         split_query_head (py_replace ''?wsdl'' [] (p @ CHR ''?'' # q)) = p"
proof -
  have "py_replace ''?wsdl'' [] (p @ []) = p @ py_replace ''?wsdl'' [] []"
    using assms by (rule py_replace_skip)
  then show "split_query_head (py_replace ''?wsdl'' [] p) = p"
    using assms by (simp add: py_replace_Nil split_query_head_plain)
  have "py_replace ''?wsdl'' [] (p @ ''?wsdl'' @ []) = p @ py_replace ''?wsdl'' [] (''?wsdl'' @ [])"
    using assms by (rule py_replace_skip)
  also have "\<dots> = p @ py_replace ''?wsdl'' [] []"
    by (simp only: py_replace_marker)
  finally show "split_query_head (py_replace ''?wsdl'' [] (p @ ''?wsdl'')) = p"
    using assms by (simp add: py_replace_Nil split_query_head_plain)
  show "split_query_head (py_replace ''?wsdl'' [] (p @ CHR ''?'' # q)) = p"
    if "\<not> startswith q ''wsdl''"
    using assms that
    by (simp add: py_replace_skip py_replace_other_query split_query_head_cut)
qed

section \<open>Claims about the dispatcher\<close>

text \<open>
  C3 (amended). The call makes at most three attempts, the second and third only
  after an exception of the one before, and sleeps 4 time units before each further
  attempt, within the bounds 4 and 10. The parsed result of the first attempt that
  succeeds is returned. When the third attempt fails as well, the caller gets
  tenacity's \<^verbatim>\<open>RetryError\<close> around the exception of the third attempt.
\<close>

theorem three_attempts_then_retry_error:
  "result (call_soap_service post parse c s env) =
     (case fst (call_soap_service_body post parse 1 c s env) of
        Inr v \<Rightarrow> Inr v
      | Inl e1 \<Rightarrow>
          (case fst (call_soap_service_body post parse 2 c s env) of
             Inr v \<Rightarrow> Inr v
           | Inl e2 \<Rightarrow>
               (case fst (call_soap_service_body post parse 3 c s env) of
                  Inr v \<Rightarrow> Inr v
                | Inl e3 \<Rightarrow> Inl (RetryError e3)))) \<and>
   length (requests (call_soap_service post parse c s env)) =
     (case fst (call_soap_service_body post parse 1 c s env) of
        Inr v \<Rightarrow> 1
      | Inl e1 \<Rightarrow>
          (case fst (call_soap_service_body post parse 2 c s env) of
             Inr v \<Rightarrow> 2
           | Inl e2 \<Rightarrow> 3)) \<and>
   length (requests (call_soap_service post parse c s env)) \<le> 3 \<and>
   sleeps (call_soap_service post parse c s env) =
     replicate (length (requests (call_soap_service post parse c s env)) - 1) 4 \<and>
   (\<forall>w \<in> set (sleeps (call_soap_service post parse c s env)). 4 \<le> w \<and> w \<le> 10)"
proof -
  have two: "Suc (Suc 0) = 2" and three: "Suc 2 = 3" by simp_all
  have step1: "call_soap_service post parse c s env =
      (case fst (call_soap_service_body post parse 1 c s env) of
        Inr v \<Rightarrow>
          \<lparr>result = Inr v, requests = [post_request (set_soap_action c s) env],
           sleeps = [], final = set_soap_action c s\<rparr>
      | Inl e \<Rightarrow>
          (let rest = call_soap_service_from post parse 2 c s env
           in rest\<lparr>requests := post_request (set_soap_action c s) env # requests rest,
                   sleeps := 4 # sleeps rest\<rparr>))"
    unfolding call_soap_service_def
    by (subst call_soap_service_from_step)
      (simp add: wait_exponential_def two split: sum.splits)
  have step2: "call_soap_service_from post parse 2 c s env =
      (case fst (call_soap_service_body post parse 2 c s env) of
        Inr v \<Rightarrow>
          \<lparr>result = Inr v, requests = [post_request (set_soap_action c s) env],
           sleeps = [], final = set_soap_action c s\<rparr>
      | Inl e \<Rightarrow>
          (let rest = call_soap_service_from post parse 3 c s env
           in rest\<lparr>requests := post_request (set_soap_action c s) env # requests rest,
                   sleeps := 4 # sleeps rest\<rparr>))"
    by (subst call_soap_service_from_step)
      (simp add: wait_exponential_def three split: sum.splits)
  have step3: "call_soap_service_from post parse 3 c s env =
      (case fst (call_soap_service_body post parse 3 c s env) of
        Inr v \<Rightarrow>
          \<lparr>result = Inr v, requests = [post_request (set_soap_action c s) env],
           sleeps = [], final = set_soap_action c s\<rparr>
      | Inl e \<Rightarrow>
          \<lparr>result = Inl (RetryError e),
           requests = [post_request (set_soap_action c s) env],
           sleeps = [], final = set_soap_action c s\<rparr>)"
    by (subst call_soap_service_from_step) (simp split: sum.splits)
  have bounds: "\<forall>w \<in> set (sleeps (call_soap_service post parse c s env)). 4 \<le> w \<and> w \<le> 10"
    unfolding call_soap_service_def using call_soap_service_from_invariant by blast
  have rest: "result (call_soap_service post parse c s env) =
     (case fst (call_soap_service_body post parse 1 c s env) of
        Inr v \<Rightarrow> Inr v
      | Inl e1 \<Rightarrow>
          (case fst (call_soap_service_body post parse 2 c s env) of
             Inr v \<Rightarrow> Inr v
           | Inl e2 \<Rightarrow>
               (case fst (call_soap_service_body post parse 3 c s env) of
                  Inr v \<Rightarrow> Inr v
                | Inl e3 \<Rightarrow> Inl (RetryError e3)))) \<and>
   length (requests (call_soap_service post parse c s env)) =
     (case fst (call_soap_service_body post parse 1 c s env) of
        Inr v \<Rightarrow> 1
      | Inl e1 \<Rightarrow>
          (case fst (call_soap_service_body post parse 2 c s env) of
             Inr v \<Rightarrow> 2
           | Inl e2 \<Rightarrow> 3)) \<and>
   length (requests (call_soap_service post parse c s env)) \<le> 3 \<and>
   sleeps (call_soap_service post parse c s env) =
     replicate (length (requests (call_soap_service post parse c s env)) - 1) 4"
    by (simp add: step1 step2 step3 Let_def split: sum.splits)
  from rest bounds show ?thesis by blast
qed

theorem three_attempts_then_retry_error_witness:
  "result (call_soap_service
     (\<lambda>n q. if n < 3 then Inl (TransportError ''reset'') else Inr (sample_response 200))
     (\<lambda>t. Inr (soap_document (status_body ''Result'' (PStr ''OK''))))
     sample_client ''GetStatus'' ''<e/>'') = Inr (PStr ''OK'') \<and>
   sleeps (call_soap_service
     (\<lambda>n q. if n < 3 then Inl (TransportError ''reset'') else Inr (sample_response 200))
     (\<lambda>t. Inr (soap_document (status_body ''Result'' (PStr ''OK''))))
     sample_client ''GetStatus'' ''<e/>'') = [4, 4]"
proof -
  let ?post = "\<lambda>(n::nat) (q::request).
    if n < 3 then Inl (TransportError ''reset'') else Inr (sample_response 200)"
  let ?parse = "\<lambda>t::string. (Inr (soap_document (status_body ''Result'' (PStr ''OK'')))
    :: exn + pyval)"
  have a1: "fst (call_soap_service_body ?post ?parse 1 sample_client ''GetStatus'' ''<e/>'') =
      Inl (TransportError ''reset'')"
    by (simp add: call_soap_service_body_def Let_def)
  have a2: "fst (call_soap_service_body ?post ?parse 2 sample_client ''GetStatus'' ''<e/>'') =
      Inl (TransportError ''reset'')"
    by (simp add: call_soap_service_body_def Let_def)
  have ok: "parse_soap_response ?parse ''<r/>'' = PStr ''OK''"
    by code_simp
  have a3: "fst (call_soap_service_body ?post ?parse 3 sample_client ''GetStatus'' ''<e/>'') =
      Inr (PStr ''OK'')"
    by (simp add: call_soap_service_body_def Let_def sample_response_def
        raise_for_status_def ok)
  let ?out = "call_soap_service ?post ?parse sample_client ''GetStatus'' ''<e/>''"
  note all = three_attempts_then_retry_error
    [of ?post ?parse sample_client "''GetStatus''" "''<e/>''"]
  from all have w1: "result ?out = Inr (PStr ''OK'')"
    by (simp only: a1 a2 a3 sum.case)
  from all have len: "length (requests ?out) = 3"
    by (simp only: a1 a2 sum.case)
  from all have "sleeps ?out = replicate (length (requests ?out) - 1) 4"
    by blast
  with len have w2: "sleeps ?out = [4, 4]"
    by (simp add: numeral_2_eq_2)
  from w1 w2 show ?thesis by simp
qed

theorem last_exception_is_wrapped:
  "result (call_soap_service (\<lambda>n q. Inl (TransportError ''timed out''))
     (\<lambda>t. Inl ExpatError) sample_client ''GetStatus'' ''<e/>'')
     = Inl (RetryError (TransportError ''timed out'')) \<and>
   result (call_soap_service (\<lambda>n q. Inl (TransportError ''timed out''))
     (\<lambda>t. Inl ExpatError) sample_client ''GetStatus'' ''<e/>'')
     \<noteq> Inl (TransportError ''timed out'')"
  by code_simp

text \<open>
  C4 (amended). An attempt whose response has a status code from 400 to 599 raises
  an \<^verbatim>\<open>HTTPError\<close>, whatever the response text is; a response with any other status
  code, inside the 2xx range or not, raises nothing and its text is unwrapped.
\<close>

theorem error_status_raises:
  assumes "post n (post_request (set_soap_action c s) env) = Inr resp"
  shows "fst (call_soap_service_body post parse n c s env) =
           (if 400 \<le> status_code resp \<and> status_code resp < 600
            then Inl (HTTPError (status_code resp))
            else Inr (parse_soap_response parse (resp_text resp)))"
  using assms by (simp add: call_soap_service_body_def Let_def raise_for_status_def)

theorem error_status_raises_witness:
  "fst (call_soap_service_body (\<lambda>n q. Inr (sample_response 500))
     (\<lambda>t. Inr (soap_document (status_body ''Result'' (PStr ''OK'')))) 1
     sample_client ''GetStatus'' ''<e/>'') = Inl (HTTPError 500)"
  using error_status_raises [of "\<lambda>n q. Inr (sample_response 500)" 1 sample_client
      "''GetStatus''" "''<e/>''" "sample_response 500"
      "\<lambda>t. Inr (soap_document (status_body ''Result'' (PStr ''OK'')))", OF refl]
  by (simp add: sample_response_def)

theorem redirect_status_not_raised:
  "fst (call_soap_service_body (\<lambda>n q. Inr (sample_response 304))
     (\<lambda>t. Inr (soap_document (status_body ''Result'' (PStr ''OK'')))) 1
     sample_client ''GetStatus'' ''<e/>'') = Inr (PStr ''OK'') \<and>
   \<not> (200 \<le> status_code (sample_response 304) \<and> status_code (sample_response 304) < 300)"
  by code_simp

text \<open>
  C7 (amended). Every request of a call is posted to \<open>target_url\<close> of the base URL.
  That URL has no question mark and always ends in \<^verbatim>\<open>.asmx\<close>. For a base URL
  \<open>p\<close> without a query string, with the query string \<^verbatim>\<open>?wsdl\<close>, or with a query
  string that does not begin with \<^verbatim>\<open>wsdl\<close>, it is \<open>p\<close> itself when \<open>p\<close> ends in
  \<^verbatim>\<open>.asmx\<close> (any such ending, not only \<^verbatim>\<open>/Sherpa.asmx\<close>) and \<open>p\<close> followed by
  \<^verbatim>\<open>/Sherpa.asmx\<close> otherwise.
\<close>

theorem post_goes_to_target_url:
  "(\<forall>r \<in> set (requests (call_soap_service post parse c s env)).
      req_url r = target_url (base_url c)) \<and>
   CHR ''?'' \<notin> set (target_url b) \<and>
   endswith (target_url b) ''.asmx'' \<and>
   (CHR ''?'' \<notin> set p \<longrightarrow>
      target_url p = (if endswith p ''.asmx'' then p else p @ ''/Sherpa.asmx'') \<and>
      target_url (p @ ''?wsdl'') = target_url p \<and>
      (\<not> startswith q ''wsdl'' \<longrightarrow> target_url (p @ CHR ''?'' # q) = target_url p))"
proof -
  have sent: "\<forall>r \<in> set (requests (call_soap_service post parse c s env)).
      req_url r = target_url (base_url c)"
    using call_soap_service_from_invariant [of post parse 1 c s env]
    by (simp add: call_soap_service_def post_request_def set_soap_action_frame)
  let ?u = "split_query_head (py_replace ''?wsdl'' [] b)"
  have no_mark: "CHR ''?'' \<notin> set (target_url b)"
    using split_query_head_no_mark [of "py_replace ''?wsdl'' [] b"]
    by (simp add: target_url_def Let_def)
  have "endswith (?u @ ''/Sherpa.asmx'') ''.asmx''"
    using endswith_suffix [of "?u @ ''/Sherpa''" "''.asmx''"] by simp
  then have ending: "endswith (target_url b) ''.asmx''"
    by (simp add: target_url_def Let_def)
  have plain: "target_url p = (if endswith p ''.asmx'' then p else p @ ''/Sherpa.asmx'') \<and>
      target_url (p @ ''?wsdl'') = target_url p \<and>
      (\<not> startswith q ''wsdl'' \<longrightarrow> target_url (p @ CHR ''?'' # q) = target_url p)"
    if "CHR ''?'' \<notin> set p"
    using stripped_base(1,2) [OF that] stripped_base(3) [OF that, of q]
    by (simp add: target_url_def Let_def)
  from sent no_mark ending plain show ?thesis by blast
qed

theorem post_goes_to_target_url_witness:
  "target_url ''https://h/svc?wsdl'' = ''https://h/svc/Sherpa.asmx'' \<and>
   target_url ''https://h/svc?op=Ping'' = ''https://h/svc/Sherpa.asmx'' \<and>
   req_url (hd (requests (call_soap_service (\<lambda>n q. Inl (TransportError ''reset''))
      (\<lambda>t. Inl ExpatError) sample_client ''GetStatus'' ''<e/>''))) =
     ''https://sherpa.example/Sherpa/Sherpa.asmx''"
proof -
  let ?out = "call_soap_service (\<lambda>n q. Inl (TransportError ''reset''))
      (\<lambda>t. Inl ExpatError) sample_client ''GetStatus'' ''<e/>''"
  have h1: "CHR ''?'' \<notin> set ''https://h/svc''"
    by simp
  have h2: "\<not> startswith ''op=Ping'' ''wsdl''"
    by simp
  have h3: "endswith ''https://h/svc'' ''.asmx'' = False"
    by code_simp
  note all = post_goes_to_target_url [of "\<lambda>n q. Inl (TransportError ''reset'')"
      "\<lambda>t. Inl ExpatError" sample_client "''GetStatus''" "''<e/>''" "''https://h/svc''"
      "''https://h/svc''" "''op=Ping''"]
  from all h1 h2
  have w1: "target_url ''https://h/svc?wsdl'' = ''https://h/svc/Sherpa.asmx'' \<and>
      target_url ''https://h/svc?op=Ping'' = ''https://h/svc/Sherpa.asmx''"
    by (simp add: h3)
  have "set (requests ?out) \<noteq> {}"
    using call_soap_service_from_invariant [of "\<lambda>n q. Inl (TransportError ''reset'')"
        "\<lambda>t. Inl ExpatError" 1 sample_client "''GetStatus''" "''<e/>''"]
    by (simp add: call_soap_service_def)
  then have "hd (requests ?out) \<in> set (requests ?out)"
    by simp
  with all have "req_url (hd (requests ?out)) = target_url (base_url sample_client)"
    by blast
  moreover have "target_url (base_url sample_client) =
      ''https://sherpa.example/Sherpa/Sherpa.asmx''"
    by code_simp
  ultimately have w2: "req_url (hd (requests ?out)) =
      ''https://sherpa.example/Sherpa/Sherpa.asmx''"
    by simp
  from w1 w2 show ?thesis by simp
qed

theorem other_asmx_gets_no_suffix:
  "target_url ''https://h/Other.asmx'' = ''https://h/Other.asmx'' \<and>
   spec_target_url ''https://h/Other.asmx'' = ''https://h/Other.asmx/Sherpa.asmx''"
  by code_simp

text \<open>
  C8. After a call for service \<open>s\<close> the session header \<^verbatim>\<open>SOAPAction\<close> is the URL
  \<^verbatim>\<open>http://sherpa.sherpaan.nl/\<close>\<open>s\<close> in double quotes, every header under another
  name is what it was before, every request of the call went out with these headers,
  and the five headers set at construction still have their construction values.
\<close>

theorem soap_action_header_set:
  "ci_get (headers (final (call_soap_service post parse c s env))) ''SOAPAction'' =
     Some ([CHR 0x22] @ ''http://sherpa.sherpaan.nl/'' @ s @ [CHR 0x22]) \<and>
   (\<forall>k. lower k \<noteq> lower ''SOAPAction'' \<longrightarrow>
      ci_get (headers (final (call_soap_service post parse c s env))) k =
      ci_get (headers c) k) \<and>
   (\<forall>r \<in> set (requests (call_soap_service post parse c s env)).
      req_headers r = headers (final (call_soap_service post parse c s env))) \<and>
   (\<forall>(k, v) \<in> set construction_headers.
      ci_get (headers (final (call_soap_service post parse (init_client d b t) s env))) k =
      Some v)"
proof -
  have fin: "final (call_soap_service post parse c' s env) = set_soap_action c' s" for c'
    using call_soap_service_from_invariant [of post parse 1 c' s env]
    by (simp add: call_soap_service_def)
  have action: "ci_get (headers (final (call_soap_service post parse c s env))) ''SOAPAction'' =
      Some ([CHR 0x22] @ ''http://sherpa.sherpaan.nl/'' @ s @ [CHR 0x22])"
    by (simp add: fin headers_set_soap_action ci_get_ci_set soap_action_def)
  have others: "\<forall>k. lower k \<noteq> lower ''SOAPAction'' \<longrightarrow>
      ci_get (headers (final (call_soap_service post parse c s env))) k =
      ci_get (headers c) k"
    by (simp only: fin headers_set_soap_action ci_get_ci_set) simp
  have sent: "\<forall>r \<in> set (requests (call_soap_service post parse c s env)).
      req_headers r = headers (final (call_soap_service post parse c s env))"
    using call_soap_service_from_invariant [of post parse 1 c s env]
    by (simp add: call_soap_service_def post_request_def)
  have kept: "\<forall>(k, v) \<in> set construction_headers.
      ci_get (headers (final (call_soap_service post parse (init_client d b t) s env))) k =
      Some v"
    unfolding fin headers_set_soap_action ci_get_ci_set
    using construction_headers_kept [of d b t]
    by (simp add: construction_headers_def lower_def lower_char_def)
  from action others sent kept show ?thesis by blast
qed

theorem soap_action_header_set_witness:
  "ci_get (headers (final (call_soap_service (\<lambda>n q. Inr (sample_response 200))
      (\<lambda>t. Inl ExpatError) sample_client ''GetStatus'' ''<e/>''))) ''SOAPAction'' =
     Some (CHR 0x22 # ''http://sherpa.sherpaan.nl/GetStatus'' @ [CHR 0x22]) \<and>
   ci_get (headers (final (call_soap_service (\<lambda>n q. Inr (sample_response 200))
      (\<lambda>t. Inl ExpatError) sample_client ''GetStatus'' ''<e/>''))) ''Connection'' =
     Some ''keep-alive''"
proof -
  let ?out = "\<lambda>c. call_soap_service (\<lambda>n q. Inr (sample_response 200))
      (\<lambda>t. Inl ExpatError) c ''GetStatus'' ''<e/>''"
  note all = soap_action_header_set [of "\<lambda>n q. Inr (sample_response 200)"
      "\<lambda>t. Inl ExpatError" sample_client "''GetStatus''" "''<e/>''" Map.empty
      "''https://sherpa.example/Sherpa/Sherpa.asmx?wsdl''" 300]
  from all have w1: "ci_get (headers (final (?out sample_client))) ''SOAPAction'' =
      Some (CHR 0x22 # ''http://sherpa.sherpaan.nl/GetStatus'' @ [CHR 0x22])"
    by simp
  have "(''Connection'', ''keep-alive'') \<in> set construction_headers"
    by (simp add: construction_headers_def)
  with all have "ci_get (headers (final (?out (init_client Map.empty
      ''https://sherpa.example/Sherpa/Sherpa.asmx?wsdl'' 300)))) ''Connection'' =
      Some ''keep-alive''"
    by blast
  then have w2: "ci_get (headers (final (?out sample_client))) ''Connection'' =
      Some ''keep-alive''"
    by (simp only: sample_client_def)
  from w1 w2 show ?thesis by simp
qed

end
